theory Spec2Isabelle
  imports Main
begin

section \<open>Tag filter: glance\_filter.js\<close>

text \<open>
  The script keeps its state in the DOM and in two closure variables. The model holds
  the part of the DOM the script reads and writes: the toggle buttons of
  \<^verbatim>\<open>#reportTagFilter button[data-toggle]\<close> in document order (their
  \<^verbatim>\<open>data-type\<close> attribute and whether they carry the class \<^verbatim>\<open>active\<close>),
  and the elements whose display the script changes (the tags \<open>t\<close> of their class
  tokens \<^verbatim>\<open>glancetag<t>\<close> and whether their inline style is
  \<^verbatim>\<open>display: none\<close>).
\<close>

type_synonym tag = string

record toggle_button =
  data_type :: tag
  active :: bool

record glance_block =
  glancetags :: "tag list"
  display_none :: bool

record filter_page =
  toggleButtons :: "toggle_button list"
  glanceBlocks :: "glance_block list"
  numToggleButtons :: nat
  numActiveToggleButtons :: nat

text \<open>
  The filter group as \<^verbatim>\<open>report_page.html\<close> renders it: the four buttons No Tags,
  Good, Warning and Bad, then one button for every other tag of the report, each with the
  class \<^verbatim>\<open>active\<close>. The identifiers come from \<^verbatim>\<open>tags.tagids\<close>.
\<close>

definition rendered_toggle_buttons :: "tag \<Rightarrow> tag \<Rightarrow> tag \<Rightarrow> tag \<Rightarrow> tag list \<Rightarrow> toggle_button list" where
  "rendered_toggle_buttons no_tag good warning bad others =
     map (\<lambda>t. \<lparr>data_type = t, active = True\<rparr>) ([no_tag, good, warning, bad] @ others)"

text \<open>The three selectors of \<^verbatim>\<open>config.selectors\<close>.\<close>

definition allToggleButtons :: "filter_page \<Rightarrow> toggle_button list" where
  "allToggleButtons p = toggleButtons p"

definition activeToggleButtons :: "filter_page \<Rightarrow> toggle_button list" where
  "activeToggleButtons p = filter active (toggleButtons p)"

definition inactiveToggleButtons :: "filter_page \<Rightarrow> toggle_button list" where
  "inactiveToggleButtons p = filter (\<lambda>b. \<not> active b) (toggleButtons p)"

text \<open>\<^verbatim>\<open>.button('toggle')\<close> flips the class \<^verbatim>\<open>active\<close> of a button.\<close>

definition button_toggle :: "toggle_button \<Rightarrow> toggle_button" where
  "button_toggle b = b\<lparr>active := \<not> active b\<rparr>"

text \<open>
  \<^verbatim>\<open>$(config.selectorPrefix.glanceTag + tag)\<close> hands the string
  \<^verbatim>\<open>'.glancetag' + tag\<close> to the selector engine of jQuery, which is not part of
  the sources and is a parameter here: for a tag it gives the elements the selector
  matches, or nothing when the engine throws on the string. When the tag is made of
  letters, digits, hyphens and underscores only, the string is a class selector, and the
  engine matches the elements with the class token \<^verbatim>\<open>glancetag<tag>\<close>. On any
  other tag nothing is assumed of the engine.
\<close>

type_synonym selector_engine = "tag \<Rightarrow> (glance_block \<Rightarrow> bool) option"

definition css_name_char :: "char \<Rightarrow> bool" where
  "css_name_char c =
     (c \<in> set ''abcdefghijklmnopqrstuvwxyzABCDEFGHIJKLMNOPQRSTUVWXYZ0123456789-_'')"

definition css_name :: "tag \<Rightarrow> bool" where
  "css_name t = list_all css_name_char t"

definition has_glancetag :: "tag \<Rightarrow> glance_block \<Rightarrow> bool" where
  "has_glancetag t b = (t \<in> set (glancetags b))"

definition class_selectors :: "selector_engine \<Rightarrow> bool" where
  "class_selectors sel = (\<forall>t. css_name t \<longrightarrow> sel t = Some (has_glancetag t))"

text \<open>
  An engine for the examples: it matches by class token on the tags above and throws on
  every other one.
\<close>

definition names_only :: selector_engine where
  "names_only t = (if css_name t then Some (has_glancetag t) else None)"

text \<open>
  \<^verbatim>\<open>.hide()\<close> and \<^verbatim>\<open>.css('display', '')\<close> on the matched elements: each gets,
  or loses, the inline \<^verbatim>\<open>display: none\<close>; a selector that matches nothing changes
  nothing.
\<close>

definition jq_hide :: "(glance_block \<Rightarrow> bool) \<Rightarrow> glance_block list \<Rightarrow> glance_block list" where
  "jq_hide matched bs = map (\<lambda>b. if matched b then b\<lparr>display_none := True\<rparr> else b) bs"

definition jq_css_display_empty ::
  "(glance_block \<Rightarrow> bool) \<Rightarrow> glance_block list \<Rightarrow> glance_block list" where
  "jq_css_display_empty matched bs =
     map (\<lambda>b. if matched b then b\<lparr>display_none := False\<rparr> else b) bs"

definition visible :: "glance_block \<Rightarrow> bool" where
  "visible b = (\<not> display_none b)"

text \<open>
  The two \<^verbatim>\<open>.each\<close> loops over buttons: for each button in turn the selector of its
  \<^verbatim>\<open>data-type\<close> is evaluated and the method applied. The result says whether the
  loop came to its end (\<open>True\<close>) or the engine threw, and gives the elements as they are
  then.
\<close>

fun each_button ::
  "((glance_block \<Rightarrow> bool) \<Rightarrow> glance_block list \<Rightarrow> glance_block list) \<Rightarrow> selector_engine \<Rightarrow>
   toggle_button list \<Rightarrow> glance_block list \<Rightarrow> bool \<times> glance_block list" where
  "each_button f sel [] bs = (True, bs)"
| "each_button f sel (b # rest) bs =
     (case sel (data_type b) of
        None \<Rightarrow> (False, bs)
      | Some matched \<Rightarrow> each_button f sel rest (f matched bs))"

text \<open>
  One run of \<^verbatim>\<open>updateContent\<close>. In a special case it toggles every button, schedules
  itself again with \<^verbatim>\<open>window.setTimeout(updateContent, 0)\<close> and returns; otherwise it
  records the number of active buttons, hides the blocks of the inactive buttons and then
  shows the blocks of the active ones. An exception of the selector engine ends the run
  where it is thrown.
\<close>

datatype 'a pass = Rescheduled 'a | Completed 'a | Threw 'a

fun state_of :: "'a pass \<Rightarrow> 'a" where
  "state_of (Rescheduled p) = p"
| "state_of (Completed p) = p"
| "state_of (Threw p) = p"

definition special_case :: "filter_page \<Rightarrow> bool" where
  "special_case p =
     ((length (inactiveToggleButtons p) = 1 \<and> numActiveToggleButtons p = numToggleButtons p)
      \<or> length (activeToggleButtons p) = 0)"

definition hide_and_show :: "selector_engine \<Rightarrow> filter_page \<Rightarrow> filter_page pass" where
  "hide_and_show sel p =
     (case each_button jq_hide sel (inactiveToggleButtons p) (glanceBlocks p) of
        (False, bs) \<Rightarrow> Threw (p\<lparr>glanceBlocks := bs\<rparr>)
      | (True, bs) \<Rightarrow>
          (case each_button jq_css_display_empty sel (activeToggleButtons p) bs of
             (False, bs') \<Rightarrow> Threw (p\<lparr>glanceBlocks := bs'\<rparr>)
           | (True, bs') \<Rightarrow> Completed (p\<lparr>glanceBlocks := bs'\<rparr>)))"

definition updateContent_pass :: "selector_engine \<Rightarrow> filter_page \<Rightarrow> filter_page pass" where
  "updateContent_pass sel p =
     (if special_case p
      then Rescheduled (p\<lparr>toggleButtons := map button_toggle (allToggleButtons p)\<rparr>)
      else hide_and_show sel (p\<lparr>numActiveToggleButtons := length (activeToggleButtons p)\<rparr>))"

text \<open>
  The rescheduled runs, with no other event between them. The second argument bounds the
  number of runs; \<open>None\<close> says that the last permitted run rescheduled itself again. A
  result is the run that reached the hide and show phase: completed, or ended there by an
  exception.
\<close>

fun updateContent :: "selector_engine \<Rightarrow> nat \<Rightarrow> filter_page \<Rightarrow> filter_page pass option" where
  "updateContent sel 0 p = None"
| "updateContent sel (Suc n) p =
     (case updateContent_pass sel p of
        Rescheduled p' \<Rightarrow> updateContent sel n p'
      | Completed p' \<Rightarrow> Some (Completed p')
      | Threw p' \<Rightarrow> Some (Threw p'))"

text \<open>
  \<^verbatim>\<open>addEventHandler\<close> initialises the two counters from the DOM and runs
  \<^verbatim>\<open>updateContent\<close>. A click on a toggle button first flips that button (the button
  widget does it) and then, deferred, runs \<^verbatim>\<open>updateContent\<close>. A click on
  \<^verbatim>\<open>#btnall\<close> toggles every inactive button first. A sequence of clicks goes on
  from the state each reconciliation leaves.
\<close>

definition addEventHandler :: "selector_engine \<Rightarrow> nat \<Rightarrow> filter_page \<Rightarrow> filter_page pass option" where
  "addEventHandler sel n p =
     updateContent sel n (p\<lparr>numToggleButtons := length (allToggleButtons p),
                            numActiveToggleButtons := length (activeToggleButtons p)\<rparr>)"

definition flip_button :: "nat \<Rightarrow> filter_page \<Rightarrow> filter_page" where
  "flip_button i p =
     (if i < length (toggleButtons p)
      then p\<lparr>toggleButtons := (toggleButtons p)[i := button_toggle (toggleButtons p ! i)]\<rparr>
      else p)"

definition toggleButtonClick ::
  "selector_engine \<Rightarrow> nat \<Rightarrow> nat \<Rightarrow> filter_page \<Rightarrow> filter_page pass option" where
  "toggleButtonClick sel n i p = updateContent sel n (flip_button i p)"

definition enableAllClick :: "selector_engine \<Rightarrow> nat \<Rightarrow> filter_page \<Rightarrow> filter_page pass option" where
  "enableAllClick sel n p =
     updateContent sel n
       (p\<lparr>toggleButtons := map (\<lambda>b. if active b then b else button_toggle b) (toggleButtons p)\<rparr>)"

fun toggleButtonClicks ::
  "selector_engine \<Rightarrow> nat \<Rightarrow> nat list \<Rightarrow> filter_page \<Rightarrow> filter_page option" where
  "toggleButtonClicks sel n [] p = Some p"
| "toggleButtonClicks sel n (i # is) p =
     (case toggleButtonClick sel n i p of
        None \<Rightarrow> None
      | Some r \<Rightarrow> toggleButtonClicks sel n is (state_of r))"

section \<open>Collapsable elements and the jQuery calls made on them\<close>

text \<open>
  A collapsable element as the scripts see it: whether it carries the class
  \<^verbatim>\<open>in\<close>, whether a transition is running on it, and the one-shot listeners bound
  to it with \<^verbatim>\<open>.one(event, callback)\<close>, in the order of their registration.
  Callbacks are closures in the source; each script gets a datatype of its closures.
\<close>

datatype direction = Show | Hide

datatype event = Shown_bs_collapse | Hidden_bs_collapse

record 'cb collapsable =
  has_in :: bool
  transitioning :: "direction option"
  once :: "(event \<times> 'cb) list"

definition jq_one :: "event \<Rightarrow> 'cb \<Rightarrow> 'cb collapsable \<Rightarrow> 'cb collapsable" where
  "jq_one ev cb c = c\<lparr>once := once c @ [(ev, cb)]\<rparr>"

text \<open>
  Modelled from the spec: the collapse/expand animation primitive of the external
  interfaces, which the scripts call as \<^verbatim>\<open>.collapse('show')\<close> and
  \<^verbatim>\<open>.collapse('hide')\<close> and which is not part of the sources. It works on an element
  with class-based shown/hidden state and emits \<^verbatim>\<open>shown.bs.collapse\<close> when an
  expansion has completed and \<^verbatim>\<open>hidden.bs.collapse\<close> when a collapse has completed.
  As in the Bootstrap plugin that owns these event names, a call on an element that is in
  a transition or already in the requested state returns without starting anything and
  without an event; a collapse removes the class \<^verbatim>\<open>in\<close> when it starts, an
  expansion adds it when it completes.
\<close>

definition bs_collapse :: "direction \<Rightarrow> 'cb collapsable \<Rightarrow> 'cb collapsable" where
  "bs_collapse d c =
     (case transitioning c of
        Some running \<Rightarrow> c
      | None \<Rightarrow>
          (case d of
             Show \<Rightarrow> if has_in c then c else c\<lparr>transitioning := Some Show\<rparr>
           | Hide \<Rightarrow> if has_in c then c\<lparr>has_in := False, transitioning := Some Hide\<rparr> else c))"

definition completion_event :: "direction \<Rightarrow> event" where
  "completion_event d = (case d of Show \<Rightarrow> Shown_bs_collapse | Hide \<Rightarrow> Hidden_bs_collapse)"

text \<open>
  Modelled from the spec: the completion of the same primitive, which is not part of the
  sources either. At the end of a running transition the element reaches its new state and
  the completion event is triggered on it. The one-shot listeners of that event are
  unbound and their callbacks are handed to the caller, which runs them in order.
  Elements are taken not to be nested in one another, so that an event triggered on one
  element does not reach the listeners of another.
\<close>

definition transition_end :: "'cb collapsable \<Rightarrow> ('cb list \<times> 'cb collapsable) option" where
  "transition_end c =
     (case transitioning c of
        None \<Rightarrow> None
      | Some d \<Rightarrow>
          Some (map snd (filter (\<lambda>l. fst l = completion_event d) (once c)),
                c\<lparr>has_in := (d = Show), transitioning := None,
                  once := filter (\<lambda>l. fst l \<noteq> completion_event d) (once c)\<rparr>))"

text \<open>
  A jQuery method called on a set of elements works on each of them. A set selected from
  a list of elements is the list of their positions.
\<close>

definition jq_each :: "('a \<Rightarrow> 'a) \<Rightarrow> nat list \<Rightarrow> 'a list \<Rightarrow> 'a list" where
  "jq_each f sel xs = fold (\<lambda>i ys. if i < length ys then ys[i := f (ys ! i)] else ys) sel xs"

text \<open>
  The calls a handler makes, in the order in which it makes them: \<open>'t\<close> names the jQuery
  set a call is made on.
\<close>

datatype ('t, 'cb) jq_call =
    One 't event 'cb
  | Collapse 't direction
  | ScrollIntoView
  | SetTimeout nat
  | SetInterval nat

section \<open>Collapse-all button: collapsable\_toggle\_button.js\<close>

text \<open>
  The button \<^verbatim>\<open>#toggleCollapsables\<close> with its text, its mode (the data
  \<^verbatim>\<open>mode\<close>, compared with the string \<^verbatim>\<open>expanded\<close>) and its attributes
  \<^verbatim>\<open>data-text-expand\<close> and \<^verbatim>\<open>data-text-collapse\<close>, the elements of class
  \<^verbatim>\<open>panel-collapse\<close> in document order, the number of one-shot click handlers
  bound to the button and the number of zero-delay timeouts waiting to run.
\<close>

datatype toggle_cb = SetButton string string

record toggle_page =
  button_text :: string
  button_mode :: string
  textExpand :: string
  textCollapse :: string
  panel_collapse :: "toggle_cb collapsable list"
  click_handlers :: nat
  timeouts :: nat

text \<open>
  \<^verbatim>\<open>$(config.collapsableSelector)\<close> in \<^verbatim>\<open>collapse\<close> and
  \<^verbatim>\<open>$(config.collapsableSelector + ':not(".in")')\<close> in \<^verbatim>\<open>expand\<close>.
\<close>

definition collapse_selection :: "toggle_page \<Rightarrow> nat list" where
  "collapse_selection p = [0..<length (panel_collapse p)]"

definition expand_selection :: "toggle_page \<Rightarrow> nat list" where
  "expand_selection p =
     filter (\<lambda>i. \<not> has_in (panel_collapse p ! i)) [0..<length (panel_collapse p)]"

definition collapse_calls :: "toggle_page \<Rightarrow> (nat list, toggle_cb) jq_call list" where
  "collapse_calls p =
     [One (collapse_selection p) Hidden_bs_collapse (SetButton (textExpand p) ''collapsed''),
      Collapse (collapse_selection p) Hide]"

definition expand_calls :: "toggle_page \<Rightarrow> (nat list, toggle_cb) jq_call list" where
  "expand_calls p =
     [One (expand_selection p) Shown_bs_collapse (SetButton (textCollapse p) ''expanded''),
      Collapse (expand_selection p) Show]"

definition onClick_calls :: "toggle_page \<Rightarrow> (nat list, toggle_cb) jq_call list" where
  "onClick_calls p = (if button_mode p = ''expanded'' then collapse_calls p else expand_calls p)"

fun exec_call :: "(nat list, toggle_cb) jq_call \<Rightarrow> toggle_page \<Rightarrow> toggle_page" where
  "exec_call (One sel ev cb) p = p\<lparr>panel_collapse := jq_each (jq_one ev cb) sel (panel_collapse p)\<rparr>"
| "exec_call (Collapse sel d) p = p\<lparr>panel_collapse := jq_each (bs_collapse d) sel (panel_collapse p)\<rparr>"
| "exec_call (SetTimeout ms) p = p\<lparr>timeouts := Suc (timeouts p)\<rparr>"
| "exec_call ScrollIntoView p = p"
| "exec_call (SetInterval ms) p = p"

definition onClick :: "toggle_page \<Rightarrow> toggle_page" where
  "onClick p = fold exec_call (onClick_calls p) p"

definition setClickHandler :: "toggle_page \<Rightarrow> toggle_page" where
  "setClickHandler p = p\<lparr>click_handlers := Suc (click_handlers p)\<rparr>"

text \<open>
  The callback bound in \<^verbatim>\<open>collapse\<close> and \<^verbatim>\<open>expand\<close>:
  \<^verbatim>\<open>buttonJq.text(buttonData.textExpand).data('mode', 'collapsed')\<close> and its
  counterpart. The callback holds the string of the attribute; what it writes is what
  jQuery makes of it, first in \<^verbatim>\<open>.data()\<close>, which converts strings such as
  \<^verbatim>\<open>null\<close>, and then in \<^verbatim>\<open>.text()\<close>. jQuery is not part of the sources:
  the text shown for an attribute string is a parameter. For a string that
  \<^verbatim>\<open>.data()\<close> leaves as it is, such as the two of the template, it is the string
  itself.
\<close>

type_synonym data_text = "string \<Rightarrow> string"

fun run_toggle_cb :: "data_text \<Rightarrow> toggle_cb \<Rightarrow> toggle_page \<Rightarrow> toggle_page" where
  "run_toggle_cb shown (SetButton t m) p = p\<lparr>button_text := shown t, button_mode := m\<rparr>"

text \<open>
  The events of the page. A click runs every one-shot click handler bound to the button and
  unbinds it; each sets a zero-delay timeout. A timeout that fires runs \<^verbatim>\<open>onClick\<close>
  and then \<^verbatim>\<open>setClickHandler\<close>. The end of the transition of the element at a
  position runs the callbacks of its completion event. An event that cannot happen in a
  state leaves it as it is.
\<close>

datatype ui_event = Click | TimeoutFires | TransitionEnd nat

fun step :: "data_text \<Rightarrow> ui_event \<Rightarrow> toggle_page \<Rightarrow> toggle_page" where
  "step shown Click p =
     ((exec_call (SetTimeout 0)) ^^ (click_handlers p)) (p\<lparr>click_handlers := 0\<rparr>)"
| "step shown TimeoutFires p =
     (if timeouts p = 0 then p
      else setClickHandler (onClick (p\<lparr>timeouts := timeouts p - 1\<rparr>)))"
| "step shown (TransitionEnd i) p =
     (if i < length (panel_collapse p)
      then (case transition_end (panel_collapse p ! i) of
              None \<Rightarrow> p
            | Some (cbs, c) \<Rightarrow>
                fold (run_toggle_cb shown) cbs
                  (p\<lparr>panel_collapse := (panel_collapse p)[i := c]\<rparr>))
      else p)"

definition steps :: "data_text \<Rightarrow> ui_event list \<Rightarrow> toggle_page \<Rightarrow> toggle_page" where
  "steps shown evs p = fold (step shown) evs p"

section \<open>Sidebar block links: the block navigation script\<close>

text \<open>
  What a click on a block link addresses: the element \<^verbatim>\<open>#collapse-section__<id>\<close>,
  the element \<^verbatim>\<open>#collapse-block__<id>\<close> and the element \<^verbatim>\<open>#link__<id>\<close>.
  A selector may match nothing; then the jQuery set is empty, \<^verbatim>\<open>hasClass\<close> is
  false on it, \<^verbatim>\<open>.one\<close> and \<^verbatim>\<open>.collapse\<close> do nothing, and
  \<^verbatim>\<open>blockAnchorJq[0].scrollIntoView()\<close> raises a TypeError.
\<close>

datatype nav_cb = ShowBlockAndScrollIntoView | ScrollBlockIntoView

datatype nav_target = SectionJq | BlockJq

datatype js_error = TypeError

record nav_page =
  sectionJq :: "nav_cb collapsable option"
  blockJq :: "nav_cb collapsable option"
  blockAnchorJq :: bool
  scrolledIntoView :: nat

definition isCollapsableShown :: "'cb collapsable option \<Rightarrow> bool" where
  "isCollapsableShown elJq = (case elJq of None \<Rightarrow> False | Some c \<Rightarrow> has_in c)"

definition scrollBlockIntoView_calls :: "(nav_target, nav_cb) jq_call list" where
  "scrollBlockIntoView_calls = [ScrollIntoView]"

definition showBlockAndScrollIntoView_calls :: "(nav_target, nav_cb) jq_call list" where
  "showBlockAndScrollIntoView_calls =
     [One BlockJq Shown_bs_collapse ScrollBlockIntoView, Collapse BlockJq Show]"

definition nav_onClick_calls :: "nav_page \<Rightarrow> (nav_target, nav_cb) jq_call list" where
  "nav_onClick_calls p =
     (if isCollapsableShown (sectionJq p)
      then (if isCollapsableShown (blockJq p)
            then scrollBlockIntoView_calls
            else showBlockAndScrollIntoView_calls)
      else [One SectionJq Shown_bs_collapse ShowBlockAndScrollIntoView,
            Collapse SectionJq Show])"

definition on_target ::
  "('cb collapsable \<Rightarrow> 'cb collapsable) \<Rightarrow> 'cb collapsable option \<Rightarrow> 'cb collapsable option" where
  "on_target f elJq = (case elJq of None \<Rightarrow> None | Some c \<Rightarrow> Some (f c))"

fun nav_exec_call :: "(nav_target, nav_cb) jq_call \<Rightarrow> nav_page \<Rightarrow> js_error + nav_page" where
  "nav_exec_call (One SectionJq ev cb) p = Inr (p\<lparr>sectionJq := on_target (jq_one ev cb) (sectionJq p)\<rparr>)"
| "nav_exec_call (One BlockJq ev cb) p = Inr (p\<lparr>blockJq := on_target (jq_one ev cb) (blockJq p)\<rparr>)"
| "nav_exec_call (Collapse SectionJq d) p =
     Inr (p\<lparr>sectionJq := on_target (bs_collapse d) (sectionJq p)\<rparr>)"
| "nav_exec_call (Collapse BlockJq d) p =
     Inr (p\<lparr>blockJq := on_target (bs_collapse d) (blockJq p)\<rparr>)"
| "nav_exec_call ScrollIntoView p =
     (if blockAnchorJq p then Inr (p\<lparr>scrolledIntoView := Suc (scrolledIntoView p)\<rparr>)
      else Inl TypeError)"
| "nav_exec_call (SetTimeout ms) p = Inr p"
| "nav_exec_call (SetInterval ms) p = Inr p"

fun nav_exec :: "(nav_target, nav_cb) jq_call list \<Rightarrow> nav_page \<Rightarrow> js_error + nav_page" where
  "nav_exec [] p = Inr p"
| "nav_exec (c # cs) p =
     (case nav_exec_call c p of Inl e \<Rightarrow> Inl e | Inr p' \<Rightarrow> nav_exec cs p')"

definition nav_onClick :: "nav_page \<Rightarrow> js_error + nav_page" where
  "nav_onClick p = nav_exec (nav_onClick_calls p) p"

fun nav_cb_calls :: "nav_cb \<Rightarrow> (nav_target, nav_cb) jq_call list" where
  "nav_cb_calls ShowBlockAndScrollIntoView = showBlockAndScrollIntoView_calls"
| "nav_cb_calls ScrollBlockIntoView = scrollBlockIntoView_calls"

text \<open>
  The events of the navigation: a click on the block link, and the end of the transition
  running on the section or on the block.
\<close>

datatype nav_event = LinkClick | SectionTransitionEnd | BlockTransitionEnd

fun nav_step :: "nav_event \<Rightarrow> nav_page \<Rightarrow> js_error + nav_page" where
  "nav_step LinkClick p = nav_onClick p"
| "nav_step SectionTransitionEnd p =
     (case sectionJq p of
        None \<Rightarrow> Inr p
      | Some c \<Rightarrow>
          (case transition_end c of
             None \<Rightarrow> Inr p
           | Some (cbs, c') \<Rightarrow> nav_exec (concat (map nav_cb_calls cbs)) (p\<lparr>sectionJq := Some c'\<rparr>)))"
| "nav_step BlockTransitionEnd p =
     (case blockJq p of
        None \<Rightarrow> Inr p
      | Some c \<Rightarrow>
          (case transition_end c of
             None \<Rightarrow> Inr p
           | Some (cbs, c') \<Rightarrow> nav_exec (concat (map nav_cb_calls cbs)) (p\<lparr>blockJq := Some c'\<rparr>)))"

fun nav_steps :: "nav_event list \<Rightarrow> nav_page \<Rightarrow> js_error + nav_page" where
  "nav_steps [] p = Inr p"
| "nav_steps (e # es) p = (case nav_step e p of Inl x \<Rightarrow> Inl x | Inr p' \<Rightarrow> nav_steps es p')"

definition in_transition :: "'cb collapsable option \<Rightarrow> bool" where
  "in_transition elJq = (case elJq of None \<Rightarrow> False | Some c \<Rightarrow> transitioning c \<noteq> None)"

text \<open>
  Letting the animations settle: as long as a transition runs on the section or on the
  block it comes to its end. The first argument bounds the number of completions.
\<close>

fun settle :: "nat \<Rightarrow> nav_page \<Rightarrow> (js_error + nav_page) option" where
  "settle 0 p = (if in_transition (sectionJq p) \<or> in_transition (blockJq p) then None else Some (Inr p))"
| "settle (Suc n) p =
     (if in_transition (sectionJq p)
      then (case nav_step SectionTransitionEnd p of Inl e \<Rightarrow> Some (Inl e) | Inr p' \<Rightarrow> settle n p')
      else if in_transition (blockJq p)
      then (case nav_step BlockTransitionEnd p of Inl e \<Rightarrow> Some (Inl e) | Inr p' \<Rightarrow> settle n p')
      else Some (Inr p))"

definition click_and_settle :: "nat \<Rightarrow> nav_page \<Rightarrow> (js_error + nav_page) option" where
  "click_and_settle n p = (case nav_onClick p of Inl e \<Rightarrow> Some (Inl e) | Inr p' \<Rightarrow> settle n p')"

text \<open>
  Vocabulary for the order of the calls of a handler: how many one-shot listeners of an
  event the first \<open>k\<close> calls bind to a set, and whether a handler sets a timer.
\<close>

definition registrations_before :: "nat \<Rightarrow> 't \<Rightarrow> event \<Rightarrow> ('t, 'cb) jq_call list \<Rightarrow> nat" where
  "registrations_before k t ev calls =
     length (filter (\<lambda>c. case c of One t' ev' cb \<Rightarrow> t' = t \<and> ev' = ev | _ \<Rightarrow> False)
               (take k calls))"

definition uses_timer :: "('t, 'cb) jq_call list \<Rightarrow> bool" where
  "uses_timer calls =
     list_ex (\<lambda>c. case c of SetTimeout ms \<Rightarrow> True | SetInterval ms \<Rightarrow> True | _ \<Rightarrow> False) calls"

section \<open>Properties of the tag filter\<close>

subsection \<open>Counting buttons\<close>

lemma active_button_toggle [simp]: "active (button_toggle b) = (\<not> active b)"
  by (simp add: button_toggle_def)

lemma data_type_button_toggle [simp]: "data_type (button_toggle b) = data_type b"
  by (simp add: button_toggle_def)

lemma button_toggle_twice [simp]: "button_toggle (button_toggle b) = b"
  by (simp add: button_toggle_def)


lemma filter_inactive_toggled:
  "filter (\<lambda>b. \<not> active b) (map button_toggle bs) = map button_toggle (filter active bs)"
  by (induction bs) simp_all

lemma count_active_inactive:
  "length (filter active bs) + length (filter (\<lambda>b. \<not> active b) bs) = length bs"
  by (induction bs) simp_all

lemma count_buttons:
  "length (activeToggleButtons p) + length (inactiveToggleButtons p) = length (toggleButtons p)"
  by (simp add: activeToggleButtons_def inactiveToggleButtons_def count_active_inactive)


lemma rendered_toggle_buttons_length:
  "length (rendered_toggle_buttons no_tag good warning bad others) = 4 + length others"
  by (simp add: rendered_toggle_buttons_def)

subsection \<open>A run that reaches the hide and show phase\<close>

lemma hide_and_show_cases:
  "(\<exists>q. hide_and_show sel p = Completed q) \<or> (\<exists>q. hide_and_show sel p = Threw q)"
  by (simp add: hide_and_show_def split: prod.splits bool.splits)

lemma hide_and_show_buttons:
  "toggleButtons (state_of (hide_and_show sel p)) = toggleButtons p"
  by (auto simp: hide_and_show_def split: prod.splits bool.splits)

lemma pass_not_rescheduled:
  assumes "\<not> special_case p"
  shows "updateContent_pass sel p \<noteq> Rescheduled q"
    and "activeToggleButtons (state_of (updateContent_pass sel p)) = activeToggleButtons p"
    and "activeToggleButtons p \<noteq> []"
proof -
  let ?p = "p\<lparr>numActiveToggleButtons := length (activeToggleButtons p)\<rparr>"
  have eq: "updateContent_pass sel p = hide_and_show sel ?p"
    using assms by (simp add: updateContent_pass_def)
  show "updateContent_pass sel p \<noteq> Rescheduled q"
    unfolding eq using hide_and_show_cases [of sel ?p] by auto
  show "activeToggleButtons (state_of (updateContent_pass sel p)) = activeToggleButtons p"
    unfolding eq by (simp add: activeToggleButtons_def hide_and_show_buttons)
  show "activeToggleButtons p \<noteq> []"
    using assms by (auto simp: special_case_def)
qed

lemma pass_rescheduled:
  assumes "special_case p"
  shows "updateContent_pass sel p =
    Rescheduled (p\<lparr>toggleButtons := map button_toggle (allToggleButtons p)\<rparr>)"
  using assms by (simp add: updateContent_pass_def)

lemma updateContent_Suc:
  "updateContent sel (Suc n) p =
     (if special_case p
      then updateContent sel n (p\<lparr>toggleButtons := map button_toggle (allToggleButtons p)\<rparr>)
      else Some (updateContent_pass sel p))"
proof (cases "special_case p")
  case True
  then show ?thesis by (simp add: pass_rescheduled)
next
  case False
  then show ?thesis
    using pass_not_rescheduled(1) [OF False]
    by (cases "updateContent_pass sel p") simp_all
qed

lemma updateContent_active_nonempty:
  "updateContent sel n p = Some r \<Longrightarrow> activeToggleButtons (state_of r) \<noteq> []"
proof (induction n arbitrary: p)
  case 0
  then show ?case by simp
next
  case (Suc n)
  show ?case
  proof (cases "special_case p")
    case True
    with Suc.prems have "updateContent sel n
        (p\<lparr>toggleButtons := map button_toggle (allToggleButtons p)\<rparr>) = Some r"
      by (simp only: updateContent_Suc if_True)
    then show ?thesis by (rule Suc.IH)
  next
    case False
    with Suc.prems have "r = updateContent_pass sel p"
      by (simp only: updateContent_Suc if_False) simp
    then show ?thesis
      using pass_not_rescheduled(2,3) [OF False] by simp
  qed
qed


lemma toggleButtonClicks_active_nonempty:
  "toggleButtonClicks sel n is p = Some p' \<Longrightarrow> is \<noteq> [] \<Longrightarrow> activeToggleButtons p' \<noteq> []"
proof (induction "is" arbitrary: p)
  case Nil
  then show ?case by simp
next
  case (Cons i js)
  from Cons.prems(1) obtain r where r: "toggleButtonClick sel n i p = Some r"
    and rest: "toggleButtonClicks sel n js (state_of r) = Some p'"
    by (auto split: option.splits)
  show ?case
  proof (cases js)
    case Nil
    with rest have "p' = state_of r" by simp
    with r show ?thesis
      by (simp add: toggleButtonClick_def updateContent_active_nonempty)
  next
    case (Cons a list)
    with rest Cons.IH show ?thesis by blast
  qed
qed

lemma zero_active_toggles_all:
  assumes "activeToggleButtons p = []"
  shows "updateContent_pass sel p =
    Rescheduled (p\<lparr>toggleButtons := map (\<lambda>b. b\<lparr>active := True\<rparr>) (toggleButtons p)\<rparr>)"
proof -
  have "\<forall>b\<in>set (toggleButtons p). \<not> active b"
    using assms by (simp add: activeToggleButtons_def filter_empty_conv)
  then have "map button_toggle (toggleButtons p) = map (\<lambda>b. b\<lparr>active := True\<rparr>) (toggleButtons p)"
    by (simp add: button_toggle_def)
  then show ?thesis
    using assms by (simp add: updateContent_pass_def special_case_def allToggleButtons_def)
qed

text \<open>
  The two loops when the engine matches by class token on every tag of the list: neither
  throws, and each is one map over the elements.
\<close>

lemma each_button_jq_hide:
  assumes "\<forall>b\<in>set bts. sel (data_type b) = Some (has_glancetag (data_type b))"
  shows "each_button jq_hide sel bts bs =
     (True, map (\<lambda>b. if set (glancetags b) \<inter> data_type ` set bts \<noteq> {}
                      then b\<lparr>display_none := True\<rparr> else b) bs)"
  using assms
proof (induction bts arbitrary: bs)
  case Nil
  then show ?case by simp
next
  case (Cons x bts)
  then show ?case
    by (auto simp: jq_hide_def has_glancetag_def)
qed

lemma each_button_jq_css_display_empty:
  assumes "\<forall>b\<in>set bts. sel (data_type b) = Some (has_glancetag (data_type b))"
  shows "each_button jq_css_display_empty sel bts bs =
     (True, map (\<lambda>b. if set (glancetags b) \<inter> data_type ` set bts \<noteq> {}
                      then b\<lparr>display_none := False\<rparr> else b) bs)"
  using assms
proof (induction bts arbitrary: bs)
  case Nil
  then show ?case by simp
next
  case (Cons x bts)
  then show ?case
    by (auto simp: jq_css_display_empty_def has_glancetag_def)
qed

lemma class_selectors_on_buttons:
  assumes "class_selectors sel" and "list_all (\<lambda>b. css_name (data_type b)) bts"
  shows "\<forall>b\<in>set bts. sel (data_type b) = Some (has_glancetag (data_type b))"
  using assms by (simp add: class_selectors_def list_all_iff)

lemma hide_and_show_completes:
  assumes "class_selectors sel" and "list_all (\<lambda>b. css_name (data_type b)) (toggleButtons p)"
  shows "hide_and_show sel p = Completed (p\<lparr>glanceBlocks :=
      map (\<lambda>b. if set (glancetags b) \<inter> data_type ` set (filter active (toggleButtons p)) \<noteq> {}
                then b\<lparr>display_none := False\<rparr>
                else if set (glancetags b) \<inter>
                        data_type ` set (filter (\<lambda>x. \<not> active x) (toggleButtons p)) \<noteq> {}
                then b\<lparr>display_none := True\<rparr>
                else b) (glanceBlocks p)\<rparr>)"
proof -
  have all: "\<forall>b\<in>set (toggleButtons p). sel (data_type b) = Some (has_glancetag (data_type b))"
    using assms by (rule class_selectors_on_buttons)
  have a: "\<forall>b\<in>set (activeToggleButtons p). sel (data_type b) = Some (has_glancetag (data_type b))"
    and i: "\<forall>b\<in>set (inactiveToggleButtons p). sel (data_type b) = Some (has_glancetag (data_type b))"
    using all by (simp_all add: activeToggleButtons_def inactiveToggleButtons_def)
  show ?thesis
    unfolding hide_and_show_def each_button_jq_hide [OF i] each_button_jq_css_display_empty [OF a]
    by (auto simp: activeToggleButtons_def inactiveToggleButtons_def)
qed

subsection \<open>How many runs a reconciliation takes\<close>


text \<open>
  A page with exactly two toggle buttons, which \<^verbatim>\<open>report_page.html\<close> does not
  render: with one of them inactive and both counted active, every run toggles both and
  schedules the next one.
\<close>

lemma two_buttons_flip_forever:
  assumes "length (toggleButtons p) = 2" and "length (inactiveToggleButtons p) = 1"
    and "numActiveToggleButtons p = numToggleButtons p"
  shows "updateContent sel n p = None"
  using assms
proof (induction n arbitrary: p)
  case 0
  then show ?case by simp
next
  case (Suc n)
  let ?q = "p\<lparr>toggleButtons := map button_toggle (allToggleButtons p)\<rparr>"
  have sc: "special_case p"
    using Suc.prems by (simp add: special_case_def)
  have "length (activeToggleButtons p) = 1"
    using Suc.prems count_buttons [of p] by simp
  then have a: "length (inactiveToggleButtons ?q) = 1"
    by (simp add: inactiveToggleButtons_def activeToggleButtons_def allToggleButtons_def
        filter_inactive_toggled)
  have b: "length (toggleButtons ?q) = 2"
    using Suc.prems by (simp add: allToggleButtons_def)
  have c: "numActiveToggleButtons ?q = numToggleButtons ?q"
    using Suc.prems by simp
  have "updateContent sel n ?q = None"
    using b a c by (rule Suc.IH)
  with sc show ?case
    by (simp add: updateContent_Suc del: updateContent.simps(2))
qed


subsection \<open>Deselecting one tag when all are active\<close>



lemmas filter_defs = addEventHandler_def toggleButtonClick_def flip_button_def
  updateContent_pass_def special_case_def allToggleButtons_def activeToggleButtons_def
  inactiveToggleButtons_def button_toggle_def hide_and_show_def jq_hide_def
  jq_css_display_empty_def visible_def names_only_def css_name_def css_name_char_def
  has_glancetag_def rendered_toggle_buttons_def

lemma names_only_class_selectors: "class_selectors names_only"
  by (simp add: class_selectors_def names_only_def)

subsection \<open>The claims about the tag filter\<close>



text \<open>
  Claim C2 (visibility matches the active set). Let the tags of the toggle buttons be
  names that make class selectors. A run that is not in a special case completes its hide
  and show phase, and after it every block that carries the marker of a toggle button is
  visible if and only if one of its markers belongs to an active toggle button; so a block
  with an inactive and an active tag ends visible. The run changes neither the number of
  blocks nor their markers.
\<close>

theorem visible_matches_active:
  assumes "\<not> special_case p"
    and "class_selectors sel"
    and "list_all (\<lambda>b. css_name (data_type b)) (toggleButtons p)"
    and "i < length (glanceBlocks p)"
    and "set (glancetags (glanceBlocks p ! i)) \<inter> data_type ` set (toggleButtons p) \<noteq> {}"
  shows "\<exists>p'. updateContent_pass sel p = Completed p' \<and>
         length (glanceBlocks p') = length (glanceBlocks p) \<and>
         glancetags (glanceBlocks p' ! i) = glancetags (glanceBlocks p ! i) \<and>
         visible (glanceBlocks p' ! i) =
           (set (glancetags (glanceBlocks p' ! i)) \<inter> data_type ` set (activeToggleButtons p') \<noteq> {})"
proof -
  let ?b = "glanceBlocks p ! i"
  let ?r = "\<lambda>b. if set (glancetags b) \<inter> data_type ` set (filter active (toggleButtons p)) \<noteq> {}
                then b\<lparr>display_none := False\<rparr>
                else if set (glancetags b) \<inter>
                        data_type ` set (filter (\<lambda>x. \<not> active x) (toggleButtons p)) \<noteq> {}
                then b\<lparr>display_none := True\<rparr>
                else b"
  let ?p1 = "p\<lparr>numActiveToggleButtons := length (activeToggleButtons p)\<rparr>"
  let ?p' = "?p1\<lparr>glanceBlocks := map ?r (glanceBlocks p)\<rparr>"
  have "hide_and_show sel ?p1 = Completed ?p'"
    using hide_and_show_completes [of sel ?p1] assms(2,3) by simp
  then have run: "updateContent_pass sel p = Completed ?p'"
    using assms(1) by (simp add: updateContent_pass_def)
  have split: "set (toggleButtons p) =
      set (filter active (toggleButtons p)) \<union> set (filter (\<lambda>x. \<not> active x) (toggleButtons p))"
    by auto
  have "visible (?r ?b) =
      (set (glancetags ?b) \<inter> data_type ` set (filter active (toggleButtons p)) \<noteq> {})"
    using assms(5) unfolding visible_def by (subst (asm) split) auto
  moreover have "glancetags (?r ?b) = glancetags ?b"
    by simp
  ultimately have "length (glanceBlocks ?p') = length (glanceBlocks p) \<and>
         glancetags (glanceBlocks ?p' ! i) = glancetags (glanceBlocks p ! i) \<and>
         visible (glanceBlocks ?p' ! i) =
           (set (glancetags (glanceBlocks ?p' ! i)) \<inter> data_type ` set (activeToggleButtons ?p') \<noteq> {})"
    using assms(4) by (simp add: activeToggleButtons_def)
  with run show ?thesis by blast
qed

theorem visible_matches_active_witness:
  "updateContent_pass names_only
     \<lparr>toggleButtons = [\<lparr>data_type = ''Good'', active = False\<rparr>,
                       \<lparr>data_type = ''CustomX'', active = True\<rparr>],
      glanceBlocks = [\<lparr>glancetags = [''Good'', ''CustomX''], display_none = True\<rparr>,
                      \<lparr>glancetags = [''Good''], display_none = False\<rparr>],
      numToggleButtons = 2, numActiveToggleButtons = 1\<rparr>
   = Completed
     \<lparr>toggleButtons = [\<lparr>data_type = ''Good'', active = False\<rparr>,
                       \<lparr>data_type = ''CustomX'', active = True\<rparr>],
      glanceBlocks = [\<lparr>glancetags = [''Good'', ''CustomX''], display_none = False\<rparr>,
                      \<lparr>glancetags = [''Good''], display_none = True\<rparr>],
      numToggleButtons = 2, numActiveToggleButtons = 1\<rparr>
   \<and> visible \<lparr>glancetags = [''Good'', ''CustomX''], display_none = False\<rparr>
   \<and> set [''Good'', ''CustomX''] \<inter> data_type ` set [\<lparr>data_type = ''CustomX'', active = True\<rparr>] \<noteq> {}"
  using visible_matches_active [of
     "\<lparr>toggleButtons = [\<lparr>data_type = ''Good'', active = False\<rparr>,
                       \<lparr>data_type = ''CustomX'', active = True\<rparr>],
      glanceBlocks = [\<lparr>glancetags = [''Good'', ''CustomX''], display_none = True\<rparr>,
                      \<lparr>glancetags = [''Good''], display_none = False\<rparr>],
      numToggleButtons = 2, numActiveToggleButtons = 1\<rparr>" names_only 0]
    names_only_class_selectors
  by (simp add: filter_defs)

text \<open>
  Claim C3 (non-empty filter). Whenever a reconciliation reaches its hide and show phase,
  after any sequence of clicks on toggle buttons or from any state, at least one toggle
  button is active; and a run that finds no active button makes every button active and
  schedules itself again.
\<close>

theorem active_set_never_empty:
  "(toggleButtonClicks sel n is p = Some p' \<and> is \<noteq> [] \<longrightarrow> activeToggleButtons p' \<noteq> []) \<and>
   (updateContent sel n p = Some r \<longrightarrow> activeToggleButtons (state_of r) \<noteq> []) \<and>
   (activeToggleButtons p = [] \<longrightarrow>
      updateContent_pass sel p =
        Rescheduled (p\<lparr>toggleButtons := map (\<lambda>b. b\<lparr>active := True\<rparr>) (toggleButtons p)\<rparr>))"
  using toggleButtonClicks_active_nonempty [of sel n "is" p p']
    updateContent_active_nonempty [of sel n p r] zero_active_toggles_all [of p sel]
  by blast

theorem active_set_never_empty_witness:
  "toggleButtonClicks names_only 2 [0, 1, 0, 1]
     \<lparr>toggleButtons = [\<lparr>data_type = ''Good'', active = True\<rparr>,
                       \<lparr>data_type = ''Warning'', active = True\<rparr>,
                       \<lparr>data_type = ''Bad'', active = True\<rparr>],
      glanceBlocks = [\<lparr>glancetags = [''Good'', ''Bad''], display_none = False\<rparr>],
      numToggleButtons = 3, numActiveToggleButtons = 3\<rparr>
   = Some
     \<lparr>toggleButtons = [\<lparr>data_type = ''Good'', active = True\<rparr>,
                       \<lparr>data_type = ''Warning'', active = True\<rparr>,
                       \<lparr>data_type = ''Bad'', active = True\<rparr>],
      glanceBlocks = [\<lparr>glancetags = [''Good'', ''Bad''], display_none = False\<rparr>],
      numToggleButtons = 3, numActiveToggleButtons = 3\<rparr>
   \<and> activeToggleButtons
     \<lparr>toggleButtons = [\<lparr>data_type = ''Good'', active = True\<rparr>,
                       \<lparr>data_type = ''Warning'', active = True\<rparr>,
                       \<lparr>data_type = ''Bad'', active = True\<rparr>],
      glanceBlocks = [\<lparr>glancetags = [''Good'', ''Bad''], display_none = False\<rparr>],
      numToggleButtons = 3, numActiveToggleButtons = 3\<rparr> \<noteq> []"
  using active_set_never_empty [of names_only 2 "[0, 1, 0, 1]"
     "\<lparr>toggleButtons = [\<lparr>data_type = ''Good'', active = True\<rparr>,
                       \<lparr>data_type = ''Warning'', active = True\<rparr>,
                       \<lparr>data_type = ''Bad'', active = True\<rparr>],
      glanceBlocks = [\<lparr>glancetags = [''Good'', ''Bad''], display_none = False\<rparr>],
      numToggleButtons = 3, numActiveToggleButtons = 3\<rparr>"
     "\<lparr>toggleButtons = [\<lparr>data_type = ''Good'', active = True\<rparr>,
                       \<lparr>data_type = ''Warning'', active = True\<rparr>,
                       \<lparr>data_type = ''Bad'', active = True\<rparr>],
      glanceBlocks = [\<lparr>glancetags = [''Good'', ''Bad''], display_none = False\<rparr>],
      numToggleButtons = 3, numActiveToggleButtons = 3\<rparr>"]
  by (simp add: filter_defs numeral_2_eq_2)



section \<open>Properties of the collapse-all button\<close>

subsection \<open>Calls on a jQuery set\<close>

lemma length_jq_each [simp]: "length (jq_each f sel xs) = length xs"
  unfolding jq_each_def by (induction sel arbitrary: xs) simp_all

lemma jq_each_Nil [simp]: "jq_each f [] xs = xs"
  by (simp add: jq_each_def)

lemma jq_each_Cons:
  "jq_each f (j # sel) xs = jq_each f sel (if j < length xs then xs[j := f (xs ! j)] else xs)"
  by (simp add: jq_each_def)

lemma nth_jq_each:
  "distinct sel \<Longrightarrow> i < length xs \<Longrightarrow>
     jq_each f sel xs ! i = (if i \<in> set sel then f (xs ! i) else xs ! i)"
proof (induction sel arbitrary: xs)
  case Nil
  then show ?case by simp
next
  case (Cons j sel)
  then show ?case
    by (auto simp: jq_each_Cons nth_list_update)
qed

lemma jq_each_preserves:
  assumes "\<And>x. P x \<Longrightarrow> P (f x)" and "\<forall>x\<in>set xs. P x"
  shows "\<forall>x\<in>set (jq_each f sel xs). P x"
  using assms(2)
proof (induction sel arbitrary: xs)
  case Nil
  then show ?case by simp
next
  case (Cons j sel)
  have "\<forall>x\<in>set (if j < length xs then xs[j := f (xs ! j)] else xs). P x"
    using Cons.prems assms(1) by (auto dest!: set_update_subset_insert [THEN subsetD])
  then show ?case
    unfolding jq_each_Cons by (rule Cons.IH)
qed

lemma distinct_selections [simp]:
  "distinct (collapse_selection p)" "distinct (expand_selection p)"
  by (simp_all add: collapse_selection_def expand_selection_def)

subsection \<open>What a run of onClick changes\<close>

lemma onClick_button [simp]:
  "button_mode (onClick p) = button_mode p"
  "button_text (onClick p) = button_text p"
  "textExpand (onClick p) = textExpand p"
  "textCollapse (onClick p) = textCollapse p"
  "click_handlers (onClick p) = click_handlers p"
  "timeouts (onClick p) = timeouts p"
  "length (panel_collapse (onClick p)) = length (panel_collapse p)"
  by (simp_all add: onClick_def onClick_calls_def collapse_calls_def expand_calls_def)

lemma panel_collapse_onClick:
  "panel_collapse (onClick p) =
     (if button_mode p = ''expanded''
      then jq_each (bs_collapse Hide) (collapse_selection p)
             (jq_each (jq_one Hidden_bs_collapse (SetButton (textExpand p) ''collapsed''))
                (collapse_selection p) (panel_collapse p))
      else jq_each (bs_collapse Show) (expand_selection p)
             (jq_each (jq_one Shown_bs_collapse (SetButton (textCollapse p) ''expanded''))
                (expand_selection p) (panel_collapse p)))"
  by (simp add: onClick_def onClick_calls_def collapse_calls_def expand_calls_def)

lemma onClick_counters_irrelevant:
  "onClick (p\<lparr>click_handlers := a, timeouts := b\<rparr>) = (onClick p)\<lparr>click_handlers := a, timeouts := b\<rparr>"
  by (simp add: onClick_def onClick_calls_def collapse_calls_def expand_calls_def
      collapse_selection_def expand_selection_def)

lemma click_then_timeout:
  assumes "click_handlers p = 1" and "timeouts p = 0"
  shows "step shown TimeoutFires (step shown Click p) = onClick p"
  using assms
  by (simp add: setClickHandler_def onClick_counters_irrelevant)

lemma onClick_in_target_state:
  assumes "\<forall>c\<in>set (panel_collapse p).
      transitioning c = None \<and> has_in c = (button_mode p \<noteq> ''expanded'')"
  shows "\<forall>c\<in>set (panel_collapse (onClick p)).
      transitioning c = None \<and> has_in c = (button_mode p \<noteq> ''expanded'')"
proof (cases "button_mode p = ''expanded''")
  case True
  let ?P = "\<lambda>c::toggle_cb collapsable. transitioning c = None \<and> \<not> has_in c"
  have "\<forall>c\<in>set (panel_collapse p). ?P c"
    using assms True by simp
  then have "\<forall>c\<in>set (jq_each (jq_one Hidden_bs_collapse (SetButton (textExpand p) ''collapsed''))
                (collapse_selection p) (panel_collapse p)). ?P c"
    by (rule jq_each_preserves [rotated]) (simp add: jq_one_def)
  then have "\<forall>c\<in>set (panel_collapse (onClick p)). ?P c"
    unfolding panel_collapse_onClick if_P [OF True]
    by (rule jq_each_preserves [rotated]) (simp add: bs_collapse_def)
  then show ?thesis using True by simp
next
  case False
  have "expand_selection p = []"
    using assms False by (auto simp: expand_selection_def filter_empty_conv)
  then show ?thesis
    using assms False by (simp add: panel_collapse_onClick)
qed

subsection \<open>The click handler and the timeouts\<close>

lemma funpow_SetTimeout:
  "timeouts ((exec_call (SetTimeout ms) ^^ k) p) = timeouts p + k"
  "click_handlers ((exec_call (SetTimeout ms) ^^ k) p) = click_handlers p"
  by (induction k) simp_all

lemma fold_run_toggle_cb_counters:
  "click_handlers (fold (run_toggle_cb shown) cbs p) = click_handlers p \<and>
   timeouts (fold (run_toggle_cb shown) cbs p) = timeouts p"
proof (induction cbs arbitrary: p)
  case Nil
  show ?case by simp
next
  case (Cons cb cbs)
  show ?case by (cases cb) (simp add: Cons.IH)
qed

lemma step_counters:
  "click_handlers (step shown e p) + timeouts (step shown e p) = click_handlers p + timeouts p"
proof (cases e)
  case Click
  then show ?thesis by (simp add: funpow_SetTimeout)
next
  case TimeoutFires
  then show ?thesis by (simp add: setClickHandler_def)
next
  case (TransitionEnd i)
  then show ?thesis
    by (simp add: fold_run_toggle_cb_counters split: option.splits prod.splits)
qed

lemma steps_counters:
  "click_handlers (steps shown evs p) + timeouts (steps shown evs p) = click_handlers p + timeouts p"
  unfolding steps_def
  by (induction evs arbitrary: p) (simp_all add: step_counters)

lemmas toggle_defs = steps_def setClickHandler_def onClick_def onClick_calls_def collapse_calls_def
  expand_calls_def collapse_selection_def expand_selection_def jq_each_def jq_one_def
  bs_collapse_def transition_end_def completion_event_def

lemmas nav_defs = click_and_settle_def nav_onClick_def nav_onClick_calls_def
  isCollapsableShown_def scrollBlockIntoView_calls_def showBlockAndScrollIntoView_calls_def
  on_target_def in_transition_def jq_one_def bs_collapse_def transition_end_def
  completion_event_def

subsection \<open>The claims about the collapse-all button\<close>

text \<open>
  Claim C4 (no double fire in global passes). In both directions a block that is already
  in the target state should be left out of the pass. The expanding pass selects the
  elements without the class in, so it leaves out the expanded ones. The collapsing pass
  selects every element of class panel-collapse: with mode expanded, a first block that
  is shown and a second one that is already collapsed, the pass takes both, and after it
  the second block, on which nothing runs, carries a one-shot listener that waits for a
  later hidden event. On the same blocks with mode collapsed the expanding pass takes the
  second block only. The listener left behind is still bound when, after an expanding
  pass, the next collapsing pass binds another one: the one completion of the second
  block then runs the callback twice.
\<close>

theorem collapse_pass_takes_collapsed_block:
  "collapse_selection
     \<lparr>button_text = ''Collapse all'', button_mode = ''expanded'', textExpand = ''Expand all'',
      textCollapse = ''Collapse all'',
      panel_collapse = [\<lparr>has_in = True, transitioning = None, once = []\<rparr>,
                        \<lparr>has_in = False, transitioning = None, once = []\<rparr>],
      click_handlers = 1, timeouts = 0\<rparr> = [0, 1]
   \<and> panel_collapse (onClick
     \<lparr>button_text = ''Collapse all'', button_mode = ''expanded'', textExpand = ''Expand all'',
      textCollapse = ''Collapse all'',
      panel_collapse = [\<lparr>has_in = True, transitioning = None, once = []\<rparr>,
                        \<lparr>has_in = False, transitioning = None, once = []\<rparr>],
      click_handlers = 1, timeouts = 0\<rparr>)
     = [\<lparr>has_in = False, transitioning = Some Hide,
         once = [(Hidden_bs_collapse, SetButton ''Expand all'' ''collapsed'')]\<rparr>,
        \<lparr>has_in = False, transitioning = None,
         once = [(Hidden_bs_collapse, SetButton ''Expand all'' ''collapsed'')]\<rparr>]
   \<and> expand_selection
     \<lparr>button_text = ''Expand all'', button_mode = ''collapsed'', textExpand = ''Expand all'',
      textCollapse = ''Collapse all'',
      panel_collapse = [\<lparr>has_in = True, transitioning = None, once = []\<rparr>,
                        \<lparr>has_in = False, transitioning = None, once = []\<rparr>],
      click_handlers = 1, timeouts = 0\<rparr> = [1]
   \<and> map once (panel_collapse
       (steps shown [Click, TimeoutFires, TransitionEnd 0, Click, TimeoutFires, TransitionEnd 0,
               TransitionEnd 1, Click, TimeoutFires] (setClickHandler
     \<lparr>button_text = ''Collapse all'', button_mode = ''expanded'', textExpand = ''Expand all'',
      textCollapse = ''Collapse all'',
      panel_collapse = [\<lparr>has_in = True, transitioning = None, once = []\<rparr>,
                        \<lparr>has_in = False, transitioning = None, once = []\<rparr>],
      click_handlers = 0, timeouts = 0\<rparr>)))
     = [[(Hidden_bs_collapse, SetButton ''Expand all'' ''collapsed'')],
        [(Hidden_bs_collapse, SetButton ''Expand all'' ''collapsed''),
         (Hidden_bs_collapse, SetButton ''Expand all'' ''collapsed'')]]"
  by (simp add: toggle_defs upt_rec)

text \<open>The completions of the transitions that one run of onClick has started.\<close>

lemma fold_run_toggle_cb_last:
  "button_mode (fold (run_toggle_cb shown) (cbs @ [SetButton t m]) r) = m \<and>
   button_text (fold (run_toggle_cb shown) (cbs @ [SetButton t m]) r) = shown t"
  by simp

lemma fold_run_toggle_cb_panel:
  "panel_collapse (fold (run_toggle_cb shown) cbs r) = panel_collapse r"
proof (induction cbs arbitrary: r)
  case Nil
  show ?case by simp
next
  case (Cons cb cbs)
  show ?case by (cases cb) (simp add: Cons.IH)
qed

lemma onClick_started:
  assumes i: "i < length (panel_collapse p)"
    and idle: "transitioning (panel_collapse p ! i) = None"
    and started: "transitioning (panel_collapse (onClick p) ! i) \<noteq> None"
  shows "\<exists>cbs c. transition_end (panel_collapse (onClick p) ! i) =
      Some (cbs @ [SetButton (if button_mode p = ''expanded'' then textExpand p else textCollapse p)
                     (if button_mode p = ''expanded'' then ''collapsed'' else ''expanded'')], c)
      \<and> transitioning c = None"
proof (cases "button_mode p = ''expanded''")
  case True
  have "panel_collapse (onClick p) ! i =
      bs_collapse Hide (jq_one Hidden_bs_collapse (SetButton (textExpand p) ''collapsed'')
        (panel_collapse p ! i))"
    using i True by (simp add: panel_collapse_onClick nth_jq_each) (simp add: collapse_selection_def)
  with started idle True show ?thesis
    by (auto simp: bs_collapse_def jq_one_def transition_end_def completion_event_def
        split: if_splits)
next
  case False
  have "panel_collapse (onClick p) ! i =
      (if i \<in> set (expand_selection p)
       then bs_collapse Show (jq_one Shown_bs_collapse (SetButton (textCollapse p) ''expanded'')
              (panel_collapse p ! i))
       else panel_collapse p ! i)"
    using i False by (simp add: panel_collapse_onClick nth_jq_each)
  with started idle False show ?thesis
    by (auto simp: bs_collapse_def jq_one_def transition_end_def completion_event_def
        split: if_splits)
qed

lemma TransitionEnd_sets_button:
  assumes "i < length (panel_collapse r)"
    and "transition_end (panel_collapse r ! i) = Some (cbs @ [SetButton t m], c)"
  shows "button_mode (step shown (TransitionEnd i) r) = m"
    and "button_text (step shown (TransitionEnd i) r) = shown t"
    and "panel_collapse (step shown (TransitionEnd i) r) = (panel_collapse r)[i := c]"
  using assms by (simp_all add: fold_run_toggle_cb_panel)

lemma TransitionEnd_not_running:
  assumes "i < length (panel_collapse r)" and "transitioning (panel_collapse r ! i) = None"
  shows "step shown (TransitionEnd i) r = r"
  using assms by (simp add: transition_end_def)

lemma later_completions_keep_button:
  assumes "length (panel_collapse r) = length (panel_collapse q)"
    and "\<forall>j\<in>set js. j < length (panel_collapse q) \<and>
           (\<exists>cbs c. transition_end (panel_collapse q ! j) = Some (cbs @ [SetButton t m], c)
              \<and> transitioning c = None)"
    and "\<forall>j\<in>set js. panel_collapse r ! j = panel_collapse q ! j \<or>
           transitioning (panel_collapse r ! j) = None"
    and "button_mode r = m" and "button_text r = shown t"
  shows "button_mode (steps shown (map TransitionEnd js) r) = m \<and>
         button_text (steps shown (map TransitionEnd js) r) = shown t"
  using assms
proof (induction js arbitrary: r)
  case Nil
  then show ?case by (simp add: steps_def)
next
  case (Cons j js)
  let ?r = "step shown (TransitionEnd j) r"
  have j: "j < length (panel_collapse r)"
    using Cons.prems(1,2) by simp
  have r': "length (panel_collapse ?r) = length (panel_collapse q) \<and>
      (\<forall>k\<in>set js. panel_collapse ?r ! k = panel_collapse q ! k \<or>
           transitioning (panel_collapse ?r ! k) = None) \<and>
      button_mode ?r = m \<and> button_text ?r = shown t"
  proof (cases "transitioning (panel_collapse r ! j) = None")
    case True
    then have "?r = r"
      using j by (rule TransitionEnd_not_running [rotated])
    then show ?thesis
      using Cons.prems by simp
  next
    case False
    with Cons.prems(3) have same: "panel_collapse r ! j = panel_collapse q ! j"
      by simp
    from Cons.prems(2) obtain cbs c
      where te: "transition_end (panel_collapse q ! j) = Some (cbs @ [SetButton t m], c)"
        and c: "transitioning c = None"
      by auto
    have te': "transition_end (panel_collapse r ! j) = Some (cbs @ [SetButton t m], c)"
      using te same by simp
    have pc: "panel_collapse ?r = (panel_collapse r)[j := c]"
      and "button_mode ?r = m" and "button_text ?r = shown t"
      using TransitionEnd_sets_button [OF j te'] by simp_all
    moreover have "\<forall>k\<in>set js. panel_collapse ?r ! k = panel_collapse q ! k \<or>
           transitioning (panel_collapse ?r ! k) = None"
    proof
      fix k
      assume k: "k \<in> set js"
      show "panel_collapse ?r ! k = panel_collapse q ! k \<or>
           transitioning (panel_collapse ?r ! k) = None"
      proof (cases "k = j")
        case True
        then show ?thesis
          unfolding pc using j c by simp
      next
        case False
        from k Cons.prems(3) have "panel_collapse r ! k = panel_collapse q ! k \<or>
           transitioning (panel_collapse r ! k) = None"
          by simp
        then show ?thesis
          unfolding pc using False by simp
      qed
    qed
    ultimately show ?thesis
      using Cons.prems(1) by simp
  qed
  have "button_mode (steps shown (map TransitionEnd js) ?r) = m \<and>
        button_text (steps shown (map TransitionEnd js) ?r) = shown t"
    using r' Cons.prems(2) by (intro Cons.IH) simp_all
  then show ?case
    by (simp add: steps_def)
qed

text \<open>
  Claim C5 (completion-gated mode update), as the code has it. A run of onClick does not
  change the mode or the text of the button. On every element on which it starts a
  transition it has bound, last, a one-shot listener that sets them. So after the ends of
  any one or more of these transitions, in any order, and already after the first, the
  mode is the new one and the text is what jQuery shows for the attribute of the new
  mode: the code does not wait for all of them.
\<close>

theorem completions_set_button:
  assumes "js \<noteq> []"
    and "\<forall>j\<in>set js. j < length (panel_collapse p) \<and>
           transitioning (panel_collapse p ! j) = None \<and>
           transitioning (panel_collapse (onClick p) ! j) \<noteq> None"
  shows "button_mode (onClick p) = button_mode p \<and> button_text (onClick p) = button_text p \<and>
         button_mode (steps shown (map TransitionEnd js) (onClick p)) =
           (if button_mode p = ''expanded'' then ''collapsed'' else ''expanded'') \<and>
         button_text (steps shown (map TransitionEnd js) (onClick p)) =
           shown (if button_mode p = ''expanded'' then textExpand p else textCollapse p)"
proof -
  let ?q = "onClick p"
  let ?t = "if button_mode p = ''expanded'' then textExpand p else textCollapse p"
  let ?m = "if button_mode p = ''expanded'' then ''collapsed'' else ''expanded''"
  have started: "\<forall>j\<in>set js. j < length (panel_collapse ?q) \<and>
      (\<exists>cbs c. transition_end (panel_collapse ?q ! j) = Some (cbs @ [SetButton ?t ?m], c)
         \<and> transitioning c = None)"
    using assms(2) onClick_started [of _ p] by simp
  from assms(1) obtain j js' where js: "js = j # js'"
    by (cases js) simp_all
  let ?r = "step shown (TransitionEnd j) ?q"
  from started js obtain cbs c
    where j: "j < length (panel_collapse ?q)"
      and te: "transition_end (panel_collapse ?q ! j) = Some (cbs @ [SetButton ?t ?m], c)"
      and c: "transitioning c = None"
    by auto
  have pc: "panel_collapse ?r = (panel_collapse ?q)[j := c]"
    and md: "button_mode ?r = ?m" and tx: "button_text ?r = shown ?t"
    using TransitionEnd_sets_button [OF j te] by simp_all
  have len: "length (panel_collapse ?r) = length (panel_collapse ?q)"
    unfolding pc by simp
  have rest: "\<forall>k\<in>set js'. panel_collapse ?r ! k = panel_collapse ?q ! k \<or>
      transitioning (panel_collapse ?r ! k) = None"
  proof
    fix k
    assume "k \<in> set js'"
    show "panel_collapse ?r ! k = panel_collapse ?q ! k \<or>
      transitioning (panel_collapse ?r ! k) = None"
      unfolding pc using j c by (cases "k = j") simp_all
  qed
  have started': "\<forall>k\<in>set js'. k < length (panel_collapse ?q) \<and>
      (\<exists>cbs c. transition_end (panel_collapse ?q ! k) = Some (cbs @ [SetButton ?t ?m], c)
         \<and> transitioning c = None)"
    using started js by simp
  have "button_mode (steps shown (map TransitionEnd js') ?r) = ?m \<and>
        button_text (steps shown (map TransitionEnd js') ?r) = shown ?t"
    using len started' rest md tx by (rule later_completions_keep_button)
  moreover have "steps shown (map TransitionEnd js) ?q = steps shown (map TransitionEnd js') ?r"
    unfolding js steps_def by simp
  ultimately show ?thesis
    by (simp only: onClick_button)
qed

theorem completions_set_button_witness:
  "map transitioning (panel_collapse (onClick
     \<lparr>button_text = ''Expand all'', button_mode = ''collapsed'', textExpand = ''Expand all'',
      textCollapse = ''Collapse all'',
      panel_collapse = [\<lparr>has_in = False, transitioning = None, once = []\<rparr>,
                        \<lparr>has_in = True, transitioning = None, once = []\<rparr>,
                        \<lparr>has_in = False, transitioning = None, once = []\<rparr>],
      click_handlers = 1, timeouts = 0\<rparr>)) = [Some Show, None, Some Show]
   \<and> button_mode (onClick
     \<lparr>button_text = ''Expand all'', button_mode = ''collapsed'', textExpand = ''Expand all'',
      textCollapse = ''Collapse all'',
      panel_collapse = [\<lparr>has_in = False, transitioning = None, once = []\<rparr>,
                        \<lparr>has_in = True, transitioning = None, once = []\<rparr>,
                        \<lparr>has_in = False, transitioning = None, once = []\<rparr>],
      click_handlers = 1, timeouts = 0\<rparr>) = ''collapsed''
   \<and> button_mode (steps id (map TransitionEnd [2, 0]) (onClick
     \<lparr>button_text = ''Expand all'', button_mode = ''collapsed'', textExpand = ''Expand all'',
      textCollapse = ''Collapse all'',
      panel_collapse = [\<lparr>has_in = False, transitioning = None, once = []\<rparr>,
                        \<lparr>has_in = True, transitioning = None, once = []\<rparr>,
                        \<lparr>has_in = False, transitioning = None, once = []\<rparr>],
      click_handlers = 1, timeouts = 0\<rparr>)) = ''expanded''
   \<and> button_text (steps id (map TransitionEnd [2, 0]) (onClick
     \<lparr>button_text = ''Expand all'', button_mode = ''collapsed'', textExpand = ''Expand all'',
      textCollapse = ''Collapse all'',
      panel_collapse = [\<lparr>has_in = False, transitioning = None, once = []\<rparr>,
                        \<lparr>has_in = True, transitioning = None, once = []\<rparr>,
                        \<lparr>has_in = False, transitioning = None, once = []\<rparr>],
      click_handlers = 1, timeouts = 0\<rparr>)) = ''Collapse all''"
  using completions_set_button [of "[2, 0]"
     "\<lparr>button_text = ''Expand all'', button_mode = ''collapsed'', textExpand = ''Expand all'',
      textCollapse = ''Collapse all'',
      panel_collapse = [\<lparr>has_in = False, transitioning = None, once = []\<rparr>,
                        \<lparr>has_in = True, transitioning = None, once = []\<rparr>,
                        \<lparr>has_in = False, transitioning = None, once = []\<rparr>],
      click_handlers = 1, timeouts = 0\<rparr>" id]
  by (simp add: toggle_defs upt_rec)

text \<open>
  The claim as it was stated fails: with two collapsed blocks and mode collapsed, a click
  starts two expansions; when the first block has finished, the mode is already expanded
  and the text already that of the collapse action, while the second block is still in
  its transition.
\<close>

theorem mode_set_before_all_completed_counterexample:
  "button_mode (steps id [Click, TimeoutFires, TransitionEnd 0] (setClickHandler
     \<lparr>button_text = ''Expand all'', button_mode = ''collapsed'', textExpand = ''Expand all'',
      textCollapse = ''Collapse all'',
      panel_collapse = [\<lparr>has_in = False, transitioning = None, once = []\<rparr>,
                        \<lparr>has_in = False, transitioning = None, once = []\<rparr>],
      click_handlers = 0, timeouts = 0\<rparr>)) = ''expanded''
   \<and> button_text (steps id [Click, TimeoutFires, TransitionEnd 0] (setClickHandler
     \<lparr>button_text = ''Expand all'', button_mode = ''collapsed'', textExpand = ''Expand all'',
      textCollapse = ''Collapse all'',
      panel_collapse = [\<lparr>has_in = False, transitioning = None, once = []\<rparr>,
                        \<lparr>has_in = False, transitioning = None, once = []\<rparr>],
      click_handlers = 0, timeouts = 0\<rparr>)) = ''Collapse all''
   \<and> panel_collapse (steps id [Click, TimeoutFires, TransitionEnd 0] (setClickHandler
     \<lparr>button_text = ''Expand all'', button_mode = ''collapsed'', textExpand = ''Expand all'',
      textCollapse = ''Collapse all'',
      panel_collapse = [\<lparr>has_in = False, transitioning = None, once = []\<rparr>,
                        \<lparr>has_in = False, transitioning = None, once = []\<rparr>],
      click_handlers = 0, timeouts = 0\<rparr>))
     = [\<lparr>has_in = True, transitioning = None, once = []\<rparr>,
        \<lparr>has_in = False, transitioning = Some Show,
         once = [(Shown_bs_collapse, SetButton ''Collapse all'' ''expanded'')]\<rparr>]"
  by (simp add: toggle_defs upt_rec)

text \<open>
  Claim C6 (re-entrancy guard), as the code has it. The click handler is a one-shot
  handler: a click unbinds it and sets a zero-delay timeout, and the timeout binds it
  again right after its run of onClick, whether or not the transitions started by that
  run have ended. So, from the moment the page is ready and whatever happens, exactly
  one of the two is there, the bound handler or the waiting timeout; and a click that
  comes while the timeout waits changes nothing.
\<close>

theorem one_handler_or_one_timeout:
  assumes "click_handlers p = 0" and "timeouts p = 0"
  shows "click_handlers (steps shown evs (setClickHandler p)) +
           timeouts (steps shown evs (setClickHandler p)) = 1 \<and>
         (0 < timeouts (steps shown evs (setClickHandler p)) \<longrightarrow>
            step shown Click (steps shown evs (setClickHandler p)) = steps shown evs (setClickHandler p))"
proof -
  let ?q = "steps shown evs (setClickHandler p)"
  have sum: "click_handlers ?q + timeouts ?q = 1"
    using assms by (simp add: steps_counters setClickHandler_def)
  moreover have "step shown Click ?q = ?q" if "0 < timeouts ?q"
  proof -
    from that sum have "click_handlers ?q = 0" by simp
    then show ?thesis by simp
  qed
  ultimately show ?thesis by blast
qed

theorem one_handler_or_one_timeout_witness:
  "click_handlers (steps id [Click, Click, TimeoutFires, TransitionEnd 0, Click] (setClickHandler
     \<lparr>button_text = ''Expand all'', button_mode = ''collapsed'', textExpand = ''Expand all'',
      textCollapse = ''Collapse all'',
      panel_collapse = [\<lparr>has_in = False, transitioning = None, once = []\<rparr>],
      click_handlers = 0, timeouts = 0\<rparr>)) = 0
   \<and> timeouts (steps id [Click, Click, TimeoutFires, TransitionEnd 0, Click] (setClickHandler
     \<lparr>button_text = ''Expand all'', button_mode = ''collapsed'', textExpand = ''Expand all'',
      textCollapse = ''Collapse all'',
      panel_collapse = [\<lparr>has_in = False, transitioning = None, once = []\<rparr>],
      click_handlers = 0, timeouts = 0\<rparr>)) = 1
   \<and> step id Click (steps id [Click, Click, TimeoutFires, TransitionEnd 0, Click] (setClickHandler
     \<lparr>button_text = ''Expand all'', button_mode = ''collapsed'', textExpand = ''Expand all'',
      textCollapse = ''Collapse all'',
      panel_collapse = [\<lparr>has_in = False, transitioning = None, once = []\<rparr>],
      click_handlers = 0, timeouts = 0\<rparr>))
     = steps id [Click, Click, TimeoutFires, TransitionEnd 0, Click] (setClickHandler
     \<lparr>button_text = ''Expand all'', button_mode = ''collapsed'', textExpand = ''Expand all'',
      textCollapse = ''Collapse all'',
      panel_collapse = [\<lparr>has_in = False, transitioning = None, once = []\<rparr>],
      click_handlers = 0, timeouts = 0\<rparr>)"
  using one_handler_or_one_timeout [of
     "\<lparr>button_text = ''Expand all'', button_mode = ''collapsed'', textExpand = ''Expand all'',
      textCollapse = ''Collapse all'',
      panel_collapse = [\<lparr>has_in = False, transitioning = None, once = []\<rparr>],
      click_handlers = 0, timeouts = 0\<rparr>" id
     "[Click, Click, TimeoutFires, TransitionEnd 0, Click]"]
  by (simp add: toggle_defs upt_rec)

text \<open>
  The claim as it was stated fails. After a click and its timeout on a page with two
  collapsed blocks the handler is bound again while both expansions run. When the first
  block has finished, the mode is expanded; a second click now starts the collapsing pass,
  which starts to collapse the first block while the second block is still expanding: two
  global transitions are under way at once.
\<close>

theorem rearmed_while_animating_counterexample:
  "click_handlers (steps id [Click, TimeoutFires] (setClickHandler
     \<lparr>button_text = ''Expand all'', button_mode = ''collapsed'', textExpand = ''Expand all'',
      textCollapse = ''Collapse all'',
      panel_collapse = [\<lparr>has_in = False, transitioning = None, once = []\<rparr>,
                        \<lparr>has_in = False, transitioning = None, once = []\<rparr>],
      click_handlers = 0, timeouts = 0\<rparr>)) = 1
   \<and> map transitioning (panel_collapse (steps id [Click, TimeoutFires] (setClickHandler
     \<lparr>button_text = ''Expand all'', button_mode = ''collapsed'', textExpand = ''Expand all'',
      textCollapse = ''Collapse all'',
      panel_collapse = [\<lparr>has_in = False, transitioning = None, once = []\<rparr>,
                        \<lparr>has_in = False, transitioning = None, once = []\<rparr>],
      click_handlers = 0, timeouts = 0\<rparr>))) = [Some Show, Some Show]
   \<and> map transitioning (panel_collapse
       (steps id [Click, TimeoutFires, TransitionEnd 0, Click, TimeoutFires] (setClickHandler
     \<lparr>button_text = ''Expand all'', button_mode = ''collapsed'', textExpand = ''Expand all'',
      textCollapse = ''Collapse all'',
      panel_collapse = [\<lparr>has_in = False, transitioning = None, once = []\<rparr>,
                        \<lparr>has_in = False, transitioning = None, once = []\<rparr>],
      click_handlers = 0, timeouts = 0\<rparr>))) = [Some Hide, Some Show]"
  by (simp add: toggle_defs upt_rec)

text \<open>Clicks on a page where every element is in the state the mode asks for.\<close>

lemma TransitionEnd_idle:
  assumes "list_all (\<lambda>c. transitioning c = None) (panel_collapse p)"
  shows "step shown (TransitionEnd i) p = p"
proof (cases "i < length (panel_collapse p)")
  case True
  with assms have "transitioning (panel_collapse p ! i) = None"
    by (simp add: list_all_length)
  then show ?thesis
    using True by (simp add: transition_end_def)
next
  case False
  then show ?thesis by simp
qed

lemma noop_clicks:
  assumes "list_all (\<lambda>c. transitioning c = None \<and> has_in c = (button_mode p \<noteq> ''expanded''))
             (panel_collapse p)"
    and "click_handlers p = 1" and "timeouts p = 0"
  shows "button_mode (steps shown (concat (replicate n [Click, TimeoutFires])) p) = button_mode p \<and>
         button_text (steps shown (concat (replicate n [Click, TimeoutFires])) p) = button_text p \<and>
         list_all (\<lambda>c. transitioning c = None)
           (panel_collapse (steps shown (concat (replicate n [Click, TimeoutFires])) p))"
  using assms
proof (induction n arbitrary: p)
  case 0
  have "list_all (\<lambda>c. transitioning c = None) (panel_collapse p)"
    using "0.prems"(1) by (simp add: list_all_iff)
  then show ?case
    by (simp add: steps_def)
next
  case (Suc n)
  let ?q = "onClick p"
  have "step shown TimeoutFires (step shown Click p) = ?q"
    using Suc.prems(2,3) by (rule click_then_timeout)
  then have q: "steps shown (concat (replicate (Suc n) [Click, TimeoutFires])) p =
      steps shown (concat (replicate n [Click, TimeoutFires])) ?q"
    by (simp add: steps_def)
  have "\<forall>c\<in>set (panel_collapse p).
      transitioning c = None \<and> has_in c = (button_mode p \<noteq> ''expanded'')"
    using Suc.prems(1) by (simp only: list_all_iff)
  then have "\<forall>c\<in>set (panel_collapse ?q).
      transitioning c = None \<and> has_in c = (button_mode p \<noteq> ''expanded'')"
    by (rule onClick_in_target_state)
  then have a: "list_all (\<lambda>c. transitioning c = None \<and> has_in c = (button_mode ?q \<noteq> ''expanded''))
          (panel_collapse ?q)"
    by (simp only: list_all_iff onClick_button)
  have b: "click_handlers ?q = 1" and c: "timeouts ?q = 0"
    using Suc.prems(2,3) by (simp_all only: onClick_button)
  have "button_mode (steps shown (concat (replicate n [Click, TimeoutFires])) ?q) = button_mode ?q \<and>
         button_text (steps shown (concat (replicate n [Click, TimeoutFires])) ?q) = button_text ?q \<and>
         list_all (\<lambda>c. transitioning c = None)
           (panel_collapse (steps shown (concat (replicate n [Click, TimeoutFires])) ?q))"
    using a b c by (rule Suc.IH)
  then show ?case
    by (simp only: q onClick_button)
qed

text \<open>
  Claim C10 (a click that has nothing to do leaves the button as it is). When the button
  is clicked while no transition runs and every element is already in the state that the
  mode asks for (all without the class in when the mode is expanded, all with it
  otherwise), the run of onClick starts no transition, so no completion event can come,
  and the mode and the text of the button stay as they are: the next click takes the same
  direction, and so does every click after it.
\<close>

theorem noop_click_leaves_button_stale:
  assumes "list_all (\<lambda>c. transitioning c = None \<and> has_in c = (button_mode p \<noteq> ''expanded''))
             (panel_collapse p)"
    and "click_handlers p = 1" and "timeouts p = 0"
  shows "button_mode (steps shown (concat (replicate n [Click, TimeoutFires])) p) = button_mode p \<and>
         button_text (steps shown (concat (replicate n [Click, TimeoutFires])) p) = button_text p \<and>
         list_all (\<lambda>c. transitioning c = None)
           (panel_collapse (steps shown (concat (replicate n [Click, TimeoutFires])) p)) \<and>
         step shown (TransitionEnd i) (steps shown (concat (replicate n [Click, TimeoutFires])) p) =
           steps shown (concat (replicate n [Click, TimeoutFires])) p"
proof -
  let ?q = "steps shown (concat (replicate n [Click, TimeoutFires])) p"
  have r: "button_mode ?q = button_mode p \<and> button_text ?q = button_text p \<and>
      list_all (\<lambda>c. transitioning c = None) (panel_collapse ?q)"
    using assms by (rule noop_clicks)
  then have "step shown (TransitionEnd i) ?q = ?q"
    by (intro TransitionEnd_idle) simp
  with r show ?thesis by simp
qed

theorem noop_click_leaves_button_stale_witness:
  "steps id (concat (replicate 2 [Click, TimeoutFires]))
     \<lparr>button_text = ''Expand all'', button_mode = ''collapsed'', textExpand = ''Expand all'',
      textCollapse = ''Collapse all'',
      panel_collapse = [\<lparr>has_in = True, transitioning = None, once = []\<rparr>,
                        \<lparr>has_in = True, transitioning = None, once = []\<rparr>],
      click_handlers = 1, timeouts = 0\<rparr>
   = \<lparr>button_text = ''Expand all'', button_mode = ''collapsed'', textExpand = ''Expand all'',
      textCollapse = ''Collapse all'',
      panel_collapse = [\<lparr>has_in = True, transitioning = None, once = []\<rparr>,
                        \<lparr>has_in = True, transitioning = None, once = []\<rparr>],
      click_handlers = 1, timeouts = 0\<rparr>
   \<and> button_mode (steps id (concat (replicate 2 [Click, TimeoutFires]))
     \<lparr>button_text = ''Expand all'', button_mode = ''collapsed'', textExpand = ''Expand all'',
      textCollapse = ''Collapse all'',
      panel_collapse = [\<lparr>has_in = True, transitioning = None, once = []\<rparr>,
                        \<lparr>has_in = True, transitioning = None, once = []\<rparr>],
      click_handlers = 1, timeouts = 0\<rparr>) = ''collapsed''"
  using noop_click_leaves_button_stale [of
     "\<lparr>button_text = ''Expand all'', button_mode = ''collapsed'', textExpand = ''Expand all'',
      textCollapse = ''Collapse all'',
      panel_collapse = [\<lparr>has_in = True, transitioning = None, once = []\<rparr>,
                        \<lparr>has_in = True, transitioning = None, once = []\<rparr>],
      click_handlers = 1, timeouts = 0\<rparr>" id 2 0]
  by (simp add: toggle_defs upt_rec numeral_2_eq_2)

section \<open>Properties of the block navigation\<close>

text \<open>
  From the three starting states in which the block is collapsed or the section is shown,
  a click on the link ends, once the transitions have ended, with section and block shown
  and one call of scrollIntoView on the anchor.
\<close>

lemma navigation_reaches_block:
  "click_and_settle 2
     \<lparr>sectionJq = Some \<lparr>has_in = False, transitioning = None, once = []\<rparr>,
      blockJq = Some \<lparr>has_in = False, transitioning = None, once = []\<rparr>,
      blockAnchorJq = True, scrolledIntoView = k\<rparr>
   = Some (Inr
     \<lparr>sectionJq = Some \<lparr>has_in = True, transitioning = None, once = []\<rparr>,
      blockJq = Some \<lparr>has_in = True, transitioning = None, once = []\<rparr>,
      blockAnchorJq = True, scrolledIntoView = Suc k\<rparr>)"
  "click_and_settle 1
     \<lparr>sectionJq = Some \<lparr>has_in = True, transitioning = None, once = []\<rparr>,
      blockJq = Some \<lparr>has_in = False, transitioning = None, once = []\<rparr>,
      blockAnchorJq = True, scrolledIntoView = k\<rparr>
   = Some (Inr
     \<lparr>sectionJq = Some \<lparr>has_in = True, transitioning = None, once = []\<rparr>,
      blockJq = Some \<lparr>has_in = True, transitioning = None, once = []\<rparr>,
      blockAnchorJq = True, scrolledIntoView = Suc k\<rparr>)"
  "click_and_settle 0
     \<lparr>sectionJq = Some \<lparr>has_in = True, transitioning = None, once = []\<rparr>,
      blockJq = Some \<lparr>has_in = True, transitioning = None, once = []\<rparr>,
      blockAnchorJq = True, scrolledIntoView = k\<rparr>
   = Some (Inr
     \<lparr>sectionJq = Some \<lparr>has_in = True, transitioning = None, once = []\<rparr>,
      blockJq = Some \<lparr>has_in = True, transitioning = None, once = []\<rparr>,
      blockAnchorJq = True, scrolledIntoView = Suc k\<rparr>)"
  by (simp_all add: nav_defs numeral_2_eq_2)

subsection \<open>The claims about the block navigation\<close>

text \<open>
  Claim C7 (terminal state of the navigation). Whatever the starting state of the section
  and of the block, a click on the link should end with the section shown, the block
  shown and the anchor scrolled into view. From a collapsed section whose block is
  already shown the click expands the section; at the end of that transition the block
  gets its listener and the call to show it, which starts nothing on a block that is
  shown. No transition is left to end, the listener waits on the block, and scrollIntoView
  has not been called.
\<close>

theorem closed_section_shown_block_never_scrolls:
  "click_and_settle 1
     \<lparr>sectionJq = Some \<lparr>has_in = False, transitioning = None, once = []\<rparr>,
      blockJq = Some \<lparr>has_in = True, transitioning = None, once = []\<rparr>,
      blockAnchorJq = True, scrolledIntoView = 0\<rparr>
   = Some (Inr
     \<lparr>sectionJq = Some \<lparr>has_in = True, transitioning = None, once = []\<rparr>,
      blockJq = Some \<lparr>has_in = True, transitioning = None,
                      once = [(Shown_bs_collapse, ScrollBlockIntoView)]\<rparr>,
      blockAnchorJq = True, scrolledIntoView = 0\<rparr>)
   \<and> settle 0
     \<lparr>sectionJq = Some \<lparr>has_in = True, transitioning = None, once = []\<rparr>,
      blockJq = Some \<lparr>has_in = True, transitioning = None,
                      once = [(Shown_bs_collapse, ScrollBlockIntoView)]\<rparr>,
      blockAnchorJq = True, scrolledIntoView = 0\<rparr>
   = Some (Inr
     \<lparr>sectionJq = Some \<lparr>has_in = True, transitioning = None, once = []\<rparr>,
      blockJq = Some \<lparr>has_in = True, transitioning = None,
                      once = [(Shown_bs_collapse, ScrollBlockIntoView)]\<rparr>,
      blockAnchorJq = True, scrolledIntoView = 0\<rparr>)"
  by (simp add: nav_defs)

section \<open>The order of listener and animation\<close>

text \<open>
  Claim C8 (listener before animation). In the calls of the collapse-all handler, of the
  link handler and of each callback of the navigation, every call that starts a collapse
  or an expansion on a set of elements comes after exactly one call that binds a
  one-shot listener of the matching completion event to the same set; the set of the
  collapse-all handler holds each element once; and none of these handlers sets a timer
  or an interval.
\<close>

theorem listener_before_animation:
  "(k1 < length (onClick_calls p) \<and> onClick_calls p ! k1 = Collapse sel d1 \<longrightarrow>
      registrations_before k1 sel (completion_event d1) (onClick_calls p) = 1 \<and> distinct sel) \<and>
   \<not> uses_timer (onClick_calls p) \<and>
   (k2 < length (nav_onClick_calls q) \<and> nav_onClick_calls q ! k2 = Collapse t2 d2 \<longrightarrow>
      registrations_before k2 t2 (completion_event d2) (nav_onClick_calls q) = 1) \<and>
   \<not> uses_timer (nav_onClick_calls q) \<and>
   (k3 < length (nav_cb_calls cb) \<and> nav_cb_calls cb ! k3 = Collapse t3 d3 \<longrightarrow>
      registrations_before k3 t3 (completion_event d3) (nav_cb_calls cb) = 1) \<and>
   \<not> uses_timer (nav_cb_calls cb)"
proof -
  have a: "registrations_before k1 sel (completion_event d1) (onClick_calls p) = 1 \<and> distinct sel"
    if "k1 < length (onClick_calls p)" "onClick_calls p ! k1 = Collapse sel d1"
    using that
    by (auto simp: onClick_calls_def collapse_calls_def expand_calls_def registrations_before_def
        completion_event_def less_Suc_eq nth_Cons' split: if_splits)
  have b: "\<not> uses_timer (onClick_calls p)"
    by (simp add: onClick_calls_def collapse_calls_def expand_calls_def uses_timer_def)
  have c: "registrations_before k2 t2 (completion_event d2) (nav_onClick_calls q) = 1"
    if "k2 < length (nav_onClick_calls q)" "nav_onClick_calls q ! k2 = Collapse t2 d2"
    using that
    by (auto simp: nav_onClick_calls_def showBlockAndScrollIntoView_calls_def
        scrollBlockIntoView_calls_def registrations_before_def
        completion_event_def less_Suc_eq nth_Cons' split: if_splits)
  have d: "\<not> uses_timer (nav_onClick_calls q)"
    by (simp add: nav_onClick_calls_def showBlockAndScrollIntoView_calls_def
        scrollBlockIntoView_calls_def uses_timer_def)
  have e: "registrations_before k3 t3 (completion_event d3) (nav_cb_calls cb) = 1"
    if "k3 < length (nav_cb_calls cb)" "nav_cb_calls cb ! k3 = Collapse t3 d3"
    using that
    by (cases cb) (auto simp: showBlockAndScrollIntoView_calls_def
        scrollBlockIntoView_calls_def registrations_before_def
        completion_event_def less_Suc_eq nth_Cons' split: if_splits)
  have f: "\<not> uses_timer (nav_cb_calls cb)"
    by (cases cb) (simp_all add: showBlockAndScrollIntoView_calls_def
        scrollBlockIntoView_calls_def uses_timer_def)
  from a b c d e f show ?thesis by blast
qed

theorem listener_before_animation_witness:
  "onClick_calls
     \<lparr>button_text = ''Collapse all'', button_mode = ''expanded'', textExpand = ''Expand all'',
      textCollapse = ''Collapse all'',
      panel_collapse = [\<lparr>has_in = True, transitioning = None, once = []\<rparr>,
                        \<lparr>has_in = False, transitioning = None, once = []\<rparr>],
      click_handlers = 1, timeouts = 0\<rparr> ! 1 = Collapse [0, 1] Hide
   \<and> registrations_before 1 [0, 1] Hidden_bs_collapse (onClick_calls
     \<lparr>button_text = ''Collapse all'', button_mode = ''expanded'', textExpand = ''Expand all'',
      textCollapse = ''Collapse all'',
      panel_collapse = [\<lparr>has_in = True, transitioning = None, once = []\<rparr>,
                        \<lparr>has_in = False, transitioning = None, once = []\<rparr>],
      click_handlers = 1, timeouts = 0\<rparr>) = 1
   \<and> nav_onClick_calls
     \<lparr>sectionJq = Some \<lparr>has_in = False, transitioning = None, once = []\<rparr>,
      blockJq = Some \<lparr>has_in = False, transitioning = None, once = []\<rparr>,
      blockAnchorJq = True, scrolledIntoView = 0\<rparr> ! 1 = Collapse SectionJq Show
   \<and> registrations_before 1 SectionJq Shown_bs_collapse (nav_onClick_calls
     \<lparr>sectionJq = Some \<lparr>has_in = False, transitioning = None, once = []\<rparr>,
      blockJq = Some \<lparr>has_in = False, transitioning = None, once = []\<rparr>,
      blockAnchorJq = True, scrolledIntoView = 0\<rparr>) = 1
   \<and> nav_cb_calls ShowBlockAndScrollIntoView ! 1 = Collapse BlockJq Show
   \<and> registrations_before 1 BlockJq Shown_bs_collapse (nav_cb_calls ShowBlockAndScrollIntoView) = 1"
  using listener_before_animation [of 1
     "\<lparr>button_text = ''Collapse all'', button_mode = ''expanded'', textExpand = ''Expand all'',
      textCollapse = ''Collapse all'',
      panel_collapse = [\<lparr>has_in = True, transitioning = None, once = []\<rparr>,
                        \<lparr>has_in = False, transitioning = None, once = []\<rparr>],
      click_handlers = 1, timeouts = 0\<rparr>" "[0, 1]" Hide 1
     "\<lparr>sectionJq = Some \<lparr>has_in = False, transitioning = None, once = []\<rparr>,
      blockJq = Some \<lparr>has_in = False, transitioning = None, once = []\<rparr>,
      blockAnchorJq = True, scrolledIntoView = 0\<rparr>" SectionJq Show 1
     ShowBlockAndScrollIntoView BlockJq Show]
  by (simp add: onClick_calls_def collapse_calls_def collapse_selection_def nav_onClick_calls_def
      isCollapsableShown_def showBlockAndScrollIntoView_calls_def completion_event_def upt_rec)

end
